theory Spec2Isabelle
  imports Main
begin

section \<open>Cournot duopoly: payoff tables and pure-strategy Nash equilibria\<close>

text \<open>
  A shallow embedding of \<^verbatim>\<open>proj.py\<close>. The script builds two 21 x 21 profit tables
  for a marginal cost \<open>c\<close>, scans the grid of quantity pairs for mutual best
  responses, and prints a report for \<open>c = 0, ..., 30\<close>.

  The tables are numpy arrays of 64-bit floats. Every entry the script stores is the
  value of an integer expression (the driver passes the integers of \<^verbatim>\<open>range(31)\<close>),
  of magnitude far below \<open>2^53\<close>, so that the conversion to a float is exact and the
  comparisons on floats agree with those on integers. The tables of
  \<open>PayoffMatrices\<close> are therefore lists of rows of \<open>int\<close>. The search itself only
  compares entries, and is modelled over any linear order; a table holding a
  not-a-number is outside the model.

  Indices come from \<^verbatim>\<open>range\<close> and are natural numbers. Every read and write of a
  table is checked against its bounds, and a failed check ends the computation with
  the exception numpy raises.
\<close>

subsection \<open>Arrays and their failures\<close>

datatype error = IndexError | ValueError

text \<open>\<^verbatim>\<open>np.zeros((n, m))\<close>: a fresh table, as a list of \<open>n\<close> rows of length \<open>m\<close>.\<close>

definition zeros :: "nat \<Rightarrow> nat \<Rightarrow> int list list" where
  "zeros n m = replicate n (replicate m 0)"

text \<open>\<^verbatim>\<open>A[i, j]\<close> with non-negative indices: an index outside the table raises.\<close>

definition get2 :: "'a list list \<Rightarrow> nat \<Rightarrow> nat \<Rightarrow> error + 'a" where
  "get2 A i j =
     (if i < length A \<and> j < length (A ! i) then Inr (A ! i ! j) else Inl IndexError)"

text \<open>\<^verbatim>\<open>A[i, j] = v\<close>: the table with one entry replaced, or the same failure.\<close>

definition set2 :: "'a list list \<Rightarrow> nat \<Rightarrow> nat \<Rightarrow> 'a \<Rightarrow> error + 'a list list" where
  "set2 A i j v =
     (if i < length A \<and> j < length (A ! i) then Inr (A[i := (A ! i)[j := v]])
      else Inl IndexError)"

text \<open>\<^verbatim>\<open>A[:, j]\<close>: column \<open>j\<close>, top to bottom.\<close>

definition col :: "'a list list \<Rightarrow> nat \<Rightarrow> error + 'a list" where
  "col A j =
     (if list_all (\<lambda>r. j < length r) A then Inr (map (\<lambda>r. r ! j) A) else Inl IndexError)"

text \<open>\<^verbatim>\<open>.max()\<close>: the largest element; numpy raises on an empty array.\<close>

fun amax :: "'a::linorder list \<Rightarrow> error + 'a" where
  "amax [] = Inl ValueError"
| "amax (x # xs) = Inr (fold max xs x)"

text \<open>\<^verbatim>\<open>A.shape[0]\<close>: the number of rows.\<close>

definition shape0 :: "'a list list \<Rightarrow> nat" where
  "shape0 A = length A"

text \<open>A table with \<open>n\<close> rows and \<open>m\<close> columns.\<close>

definition is_shape :: "nat \<Rightarrow> nat \<Rightarrow> 'a list list \<Rightarrow> bool" where
  "is_shape n m A \<longleftrightarrow> length A = n \<and> list_all (\<lambda>r. length r = m) A"

subsection \<open>PayoffMatrices\<close>

text \<open>The two assignments of the loop body, on Python's unbounded integers.\<close>

definition profit1 :: "int \<Rightarrow> nat \<Rightarrow> nat \<Rightarrow> int" where
  "profit1 c q1 q2 = ((30 - int q1 - int q2) * int q1) - (c * int q1)"

definition profit2 :: "int \<Rightarrow> nat \<Rightarrow> nat \<Rightarrow> int" where
  "profit2 c q1 q2 = ((30 - int q1 - int q2) * int q2) - (c * int q2)"

text \<open>The inner loop \<^verbatim>\<open>for q2 in range(n)\<close>, over the indices still to visit.\<close>

fun PayoffMatrices_inner ::
  "int \<Rightarrow> nat \<Rightarrow> nat list \<Rightarrow> int list list \<times> int list list
     \<Rightarrow> error + (int list list \<times> int list list)" where
  "PayoffMatrices_inner c q1 [] (A, B) = Inr (A, B)"
| "PayoffMatrices_inner c q1 (q2 # rest) (A, B) =
     (case set2 A q1 q2 (profit1 c q1 q2) of
        Inl e \<Rightarrow> Inl e
      | Inr A' \<Rightarrow>
          (case set2 B q2 q1 (profit2 c q1 q2) of
             Inl e \<Rightarrow> Inl e
           | Inr B' \<Rightarrow> PayoffMatrices_inner c q1 rest (A', B')))"

text \<open>The outer loop \<^verbatim>\<open>for q1 in range(n)\<close>.\<close>

fun PayoffMatrices_outer ::
  "int \<Rightarrow> nat \<Rightarrow> nat list \<Rightarrow> int list list \<times> int list list
     \<Rightarrow> error + (int list list \<times> int list list)" where
  "PayoffMatrices_outer c n [] (A, B) = Inr (A, B)"
| "PayoffMatrices_outer c n (q1 # rest) (A, B) =
     (case PayoffMatrices_inner c q1 [0..<n] (A, B) of
        Inl e \<Rightarrow> Inl e
      | Inr AB' \<Rightarrow> PayoffMatrices_outer c n rest AB')"

definition PayoffMatrices :: "int \<Rightarrow> error + (int list list \<times> int list list)" where
  "PayoffMatrices c =
     (let n = 21;
          A = zeros n n;
          B = zeros n n
      in PayoffMatrices_outer c n [0..<n] (A, B))"

subsection \<open>NashEquilibrium\<close>

text \<open>
  The body of the double loop for one pair: both best-response tests, left operand
  before right as Python evaluates them, and the pair appended when both hold.
\<close>

definition NashEquilibrium_step ::
  "'a::linorder list list \<Rightarrow> 'a list list \<Rightarrow> nat \<Rightarrow> nat \<Rightarrow> (nat \<times> nat) list
     \<Rightarrow> error + (nat \<times> nat) list" where
  "NashEquilibrium_step A B q1 q2 equilibria =
     (case get2 A q1 q2 of Inl e \<Rightarrow> Inl e | Inr a \<Rightarrow>
      case col A q2 of Inl e \<Rightarrow> Inl e | Inr ca \<Rightarrow>
      case amax ca of Inl e \<Rightarrow> Inl e | Inr ma \<Rightarrow>
      case get2 B q2 q1 of Inl e \<Rightarrow> Inl e | Inr b \<Rightarrow>
      case col B q1 of Inl e \<Rightarrow> Inl e | Inr cb \<Rightarrow>
      case amax cb of Inl e \<Rightarrow> Inl e | Inr mb \<Rightarrow>
        (let firm1_best_response = (a \<ge> ma);
             firm2_best_response = (b \<ge> mb)
         in if firm1_best_response \<and> firm2_best_response
            then Inr (equilibria @ [(q1, q2)])
            else Inr equilibria))"

fun NashEquilibrium_inner ::
  "'a::linorder list list \<Rightarrow> 'a list list \<Rightarrow> nat \<Rightarrow> nat list \<Rightarrow> (nat \<times> nat) list
     \<Rightarrow> error + (nat \<times> nat) list" where
  "NashEquilibrium_inner A B q1 [] equilibria = Inr equilibria"
| "NashEquilibrium_inner A B q1 (q2 # rest) equilibria =
     (case NashEquilibrium_step A B q1 q2 equilibria of
        Inl e \<Rightarrow> Inl e
      | Inr equilibria' \<Rightarrow> NashEquilibrium_inner A B q1 rest equilibria')"

fun NashEquilibrium_outer ::
  "'a::linorder list list \<Rightarrow> 'a list list \<Rightarrow> nat \<Rightarrow> nat list \<Rightarrow> (nat \<times> nat) list
     \<Rightarrow> error + (nat \<times> nat) list" where
  "NashEquilibrium_outer A B n [] equilibria = Inr equilibria"
| "NashEquilibrium_outer A B n (q1 # rest) equilibria =
     (case NashEquilibrium_inner A B q1 [0..<n] equilibria of
        Inl e \<Rightarrow> Inl e
      | Inr equilibria' \<Rightarrow> NashEquilibrium_outer A B n rest equilibria')"

text \<open>The list \<^verbatim>\<open>equilibria\<close> as it stands when the double loop is left.\<close>

definition equilibria_of ::
  "'a::linorder list list \<Rightarrow> 'a list list \<Rightarrow> error + (nat \<times> nat) list" where
  "equilibria_of A B =
     (let n = shape0 A;
          equilibria = []
      in NashEquilibrium_outer A B n [0..<n] equilibria)"

subsection \<open>Printing\<close>

text \<open>Python's \<^verbatim>\<open>str\<close> of an integer, as an f-string formats it: decimal digits.\<close>

definition digit_char :: "nat \<Rightarrow> char" where
  "digit_char d = char_of (48 + d)"

function str_nat :: "nat \<Rightarrow> string" where
  "str_nat n = (if n < 10 then [digit_char n] else str_nat (n div 10) @ [digit_char (n mod 10)])"
  by pat_completeness auto
termination
  by (relation "measure (\<lambda>n. n)") auto

declare str_nat.simps [simp del]

definition str_int :: "int \<Rightarrow> string" where
  "str_int i = (if i < 0 then CHR ''-'' # str_nat (nat (- i)) else str_nat (nat i))"

definition equilibrium_line :: "int \<Rightarrow> nat \<times> nat \<Rightarrow> string" where
  "equilibrium_line c eq =
     ''For marginal cost c = '' @ str_int c @ '', the strategy profile (q1=''
       @ str_nat (fst eq) @ '', q2='' @ str_nat (snd eq) @ '') is a Nash equilibrium.''"

definition absence_line :: "int \<Rightarrow> string" where
  "absence_line c =
     ''For marginal cost c = '' @ str_int c @ '', no pure strategy Nash equilibrium exists.''"

text \<open>
  \<^verbatim>\<open>NashEquilibrium(A, B, c)\<close> returns nothing; what it does is print. The model
  returns the lines written to standard output. A failure can only arise in the
  double loop, before the first line is written.
\<close>

definition NashEquilibrium ::
  "'a::linorder list list \<Rightarrow> 'a list list \<Rightarrow> int \<Rightarrow> error + string list" where
  "NashEquilibrium A B c =
     (case equilibria_of A B of
        Inl e \<Rightarrow> Inl e
      | Inr equilibria \<Rightarrow>
          if equilibria \<noteq> [] then Inr (map (equilibrium_line c) equilibria)
          else Inr [absence_line c])"

subsection \<open>The driver\<close>

text \<open>
  One pass of the loop of \<^verbatim>\<open>main\<close> appends to the lines written so far; a failure
  keeps the lines written before it.
\<close>

fun main_loop :: "nat list \<Rightarrow> string list \<Rightarrow> string list \<times> error option" where
  "main_loop [] out = (out, None)"
| "main_loop (c # rest) out =
     (let out1 = out @ [''Marginal cost c = '' @ str_int (int c)];
          out2 = out1 @ [replicate 30 CHR ''-'']
      in case PayoffMatrices (int c) of
           Inl e \<Rightarrow> (out2, Some e)
         | Inr (A, B) \<Rightarrow>
             (case NashEquilibrium A B (int c) of
                Inl e \<Rightarrow> (out2, Some e)
              | Inr printed \<Rightarrow>
                  main_loop rest (out2 @ printed @ [[], replicate 30 CHR ''='', []])))"

definition main :: "string list \<times> error option" where
  "main = main_loop [0..<31] []"

text \<open>What one pass of the driver computes for a cost \<open>c\<close>, before printing.\<close>

definition sweep_equilibria :: "int \<Rightarrow> error + (nat \<times> nat) list" where
  "sweep_equilibria c =
     (case PayoffMatrices c of Inl e \<Rightarrow> Inl e | Inr (A, B) \<Rightarrow> equilibria_of A B)"

subsection \<open>The specification's notions\<close>

text \<open>The maximum of column \<open>j\<close> of a table, over all its rows.\<close>

definition col_max :: "'a::linorder list list \<Rightarrow> nat \<Rightarrow> 'a" where
  "col_max A j = Max ((\<lambda>i. A ! i ! j) ` {0..<length A})"

text \<open>
  Mutual best response: the entry of firm 1 equals the maximum of column \<open>q2\<close> of
  \<open>A\<close>, and the entry of firm 2 equals the maximum of column \<open>q1\<close> of \<open>B\<close>.
\<close>

definition is_nash :: "'a::linorder list list \<Rightarrow> 'a list list \<Rightarrow> nat \<Rightarrow> nat \<Rightarrow> bool" where
  "is_nash A B q1 q2 \<longleftrightarrow> A ! q1 ! q2 = col_max A q2 \<and> B ! q2 ! q1 = col_max B q1"

text \<open>The grid scanned with \<open>q1\<close> outer and \<open>q2\<close> inner, keeping the qualifying pairs.\<close>

definition nash_pairs :: "'a::linorder list list \<Rightarrow> 'a list list \<Rightarrow> (nat \<times> nat) list" where
  "nash_pairs A B =
     filter (\<lambda>(q1, q2). is_nash A B q1 q2) (List.product [0..<length A] [0..<length A])"

text \<open>The strict lexicographic order on pairs, first component first.\<close>

definition lex_less :: "nat \<times> nat \<Rightarrow> nat \<times> nat \<Rightarrow> bool" where
  "lex_less p q \<longleftrightarrow> fst p < fst q \<or> (fst p = fst q \<and> snd p < snd q)"

text \<open>One block of the report, for a cost \<open>c\<close> and the pairs found for it.\<close>

definition report_block :: "nat \<Rightarrow> (nat \<times> nat) list \<Rightarrow> string list" where
  "report_block c eqs =
     [''Marginal cost c = '' @ str_int (int c), replicate 30 CHR ''-'']
       @ (if eqs = [] then [absence_line (int c)] else map (equilibrium_line (int c)) eqs)
       @ [[], replicate 30 CHR ''='', []]"

subsection \<open>Closed forms used in the proofs\<close>

text \<open>The table both results of \<open>PayoffMatrices c\<close> turn out to be.\<close>

definition payoff_table :: "int \<Rightarrow> int list list" where
  "payoff_table c = map (\<lambda>q1. map (\<lambda>q2. profit1 c q1 q2) [0..<21]) [0..<21]"

text \<open>
  The quantity \<open>q\<close> maximises \<open>(30 - c - q') * q - q * q\<close> over \<open>0, ..., 20\<close> exactly
  when neither neighbour on the grid does better.
\<close>

definition best_reply :: "int \<Rightarrow> nat \<Rightarrow> nat \<Rightarrow> bool" where
  "best_reply c q q' \<longleftrightarrow>
     (q = 20 \<or> 30 - c - int q' - 1 \<le> 2 * int q) \<and> (q = 0 \<or> 2 * int q \<le> 30 - c - int q' + 1)"

definition closed_pairs :: "int \<Rightarrow> (nat \<times> nat) list" where
  "closed_pairs c =
     filter (\<lambda>(q1, q2). best_reply c q1 q2 \<and> best_reply c q2 q1) (List.product [0..<21] [0..<21])"

text \<open>The at most two quantities of firm 2 that can be a best reply to \<open>q1\<close>.\<close>

definition candidates :: "int \<Rightarrow> nat \<Rightarrow> nat list" where
  "candidates c q1 =
     (let m = 30 - c - int q1; lo = nat (m div 2); hi = nat ((m + 1) div 2)
      in if lo = hi then [lo] else [lo, hi])"

definition fast_pairs :: "int \<Rightarrow> (nat \<times> nat) list" where
  "fast_pairs c =
     concat (map (\<lambda>q1. map (Pair q1)
        (filter (\<lambda>q2. best_reply c q1 q2 \<and> best_reply c q2 q1) (candidates c q1))) [0..<21])"

section \<open>The payoff tables\<close>

lemma is_shape_nth: "is_shape n m A \<Longrightarrow> i < n \<Longrightarrow> length (A ! i) = m"
  by (simp add: is_shape_def list_all_length)

lemma is_shape_zeros: "is_shape n m (zeros n m)"
  by (simp add: is_shape_def zeros_def list_all_length)

lemma set2_ok:
  assumes "is_shape n m A" "i < n" "j < m"
  shows "set2 A i j v = Inr (A[i := (A ! i)[j := v]])"
  using assms by (simp add: set2_def is_shape_def list_all_length)

lemma get2_ok:
  assumes "is_shape n m A" "i < n" "j < m"
  shows "get2 A i j = Inr (A ! i ! j)"
  using assms by (simp add: get2_def is_shape_def list_all_length)

lemma is_shape_update:
  assumes "is_shape n m A"
  shows "is_shape n m (A[i := (A ! i)[j := v]])"
  using assms
  by (cases "i < length A") (auto simp: is_shape_def list_all_length nth_list_update)

lemma update_nth:
  assumes "is_shape n m A" "i' < n" "j' < m"
  shows "A[i := (A ! i)[j := v]] ! i' ! j' = (if i' = i \<and> j' = j then v else A ! i' ! j')"
  using assms
  by (cases "i < length A"; cases "j < length (A ! i)")
     (auto simp: is_shape_def list_all_length nth_list_update)

text \<open>
  The inner loop writes row \<open>q1\<close> of \<open>A\<close> and column \<open>q1\<close> of \<open>B\<close> at the visited
  indices and leaves everything else alone; no write leaves the table.
\<close>

lemma PayoffMatrices_inner_ok:
  assumes "is_shape n n A" "is_shape n n B" "q1 < n" "\<forall>q2\<in>set q2s. q2 < n"
  shows "\<exists>A' B'. PayoffMatrices_inner c q1 q2s (A, B) = Inr (A', B')
           \<and> is_shape n n A' \<and> is_shape n n B'
           \<and> (\<forall>i<n. \<forall>j<n. A' ! i ! j =
                 (if i = q1 \<and> j \<in> set q2s then profit1 c i j else A ! i ! j))
           \<and> (\<forall>i<n. \<forall>j<n. B' ! i ! j =
                 (if j = q1 \<and> i \<in> set q2s then profit2 c j i else B ! i ! j))"
  using assms
proof (induction q2s arbitrary: A B)
  case Nil
  then show ?case by simp
next
  case (Cons q2 rest)
  let ?A1 = "A[q1 := (A ! q1)[q2 := profit1 c q1 q2]]"
  let ?B1 = "B[q2 := (B ! q2)[q1 := profit2 c q1 q2]]"
  have q2: "q2 < n" using Cons.prems by simp
  have sA: "is_shape n n ?A1" and sB: "is_shape n n ?B1"
    using Cons.prems by (simp_all add: is_shape_update)
  have rest: "\<forall>q\<in>set rest. q < n" using Cons.prems by simp
  obtain A' B' where
    run: "PayoffMatrices_inner c q1 rest (?A1, ?B1) = Inr (A', B')"
    and shp: "is_shape n n A'" "is_shape n n B'"
    and eA: "\<forall>i<n. \<forall>j<n. A' ! i ! j =
                 (if i = q1 \<and> j \<in> set rest then profit1 c i j else ?A1 ! i ! j)"
    and eB: "\<forall>i<n. \<forall>j<n. B' ! i ! j =
                 (if j = q1 \<and> i \<in> set rest then profit2 c j i else ?B1 ! i ! j)"
    using Cons.IH [OF sA sB \<open>q1 < n\<close> rest] by blast
  have step: "PayoffMatrices_inner c q1 (q2 # rest) (A, B) = Inr (A', B')"
    using run Cons.prems q2 by (simp add: set2_ok)
  have "\<forall>i<n. \<forall>j<n. A' ! i ! j =
          (if i = q1 \<and> j \<in> set (q2 # rest) then profit1 c i j else A ! i ! j)"
    using eA Cons.prems(1) by (auto simp: update_nth)
  moreover have "\<forall>i<n. \<forall>j<n. B' ! i ! j =
          (if j = q1 \<and> i \<in> set (q2 # rest) then profit2 c j i else B ! i ! j)"
    using eB Cons.prems(2) by (auto simp: update_nth)
  ultimately show ?case using step shp by blast
qed

lemma PayoffMatrices_outer_ok:
  assumes "is_shape n n A" "is_shape n n B" "\<forall>q1\<in>set q1s. q1 < n"
  shows "\<exists>A' B'. PayoffMatrices_outer c n q1s (A, B) = Inr (A', B')
           \<and> is_shape n n A' \<and> is_shape n n B'
           \<and> (\<forall>i<n. \<forall>j<n. A' ! i ! j =
                 (if i \<in> set q1s then profit1 c i j else A ! i ! j))
           \<and> (\<forall>i<n. \<forall>j<n. B' ! i ! j =
                 (if j \<in> set q1s then profit2 c j i else B ! i ! j))"
  using assms
proof (induction q1s arbitrary: A B)
  case Nil
  then show ?case by simp
next
  case (Cons q1 rest)
  have q1: "q1 < n" and rest: "\<forall>q\<in>set rest. q < n" using Cons.prems by simp_all
  obtain A1 B1 where
    inner: "PayoffMatrices_inner c q1 [0..<n] (A, B) = Inr (A1, B1)"
    and s1: "is_shape n n A1" "is_shape n n B1"
    and a1: "\<forall>i<n. \<forall>j<n. A1 ! i ! j = (if i = q1 then profit1 c i j else A ! i ! j)"
    and b1: "\<forall>i<n. \<forall>j<n. B1 ! i ! j = (if j = q1 then profit2 c j i else B ! i ! j)"
    using PayoffMatrices_inner_ok [OF Cons.prems(1,2) q1, of "[0..<n]" c] by auto
  obtain A' B' where
    run: "PayoffMatrices_outer c n rest (A1, B1) = Inr (A', B')"
    and shp: "is_shape n n A'" "is_shape n n B'"
    and eA: "\<forall>i<n. \<forall>j<n. A' ! i ! j = (if i \<in> set rest then profit1 c i j else A1 ! i ! j)"
    and eB: "\<forall>i<n. \<forall>j<n. B' ! i ! j = (if j \<in> set rest then profit2 c j i else B1 ! i ! j)"
    using Cons.IH [OF s1 rest] by blast
  have step: "PayoffMatrices_outer c n (q1 # rest) (A, B) = Inr (A', B')"
    using inner run by simp
  have "\<forall>i<n. \<forall>j<n. A' ! i ! j =
          (if i \<in> set (q1 # rest) then profit1 c i j else A ! i ! j)"
    using eA a1 by auto
  moreover have "\<forall>i<n. \<forall>j<n. B' ! i ! j =
          (if j \<in> set (q1 # rest) then profit2 c j i else B ! i ! j)"
    using eB b1 by auto
  ultimately show ?case using step shp by blast
qed

text \<open>The call returns two 21 x 21 tables holding the two profit formulas.\<close>

lemma PayoffMatrices_ok:
  "\<exists>A B. PayoffMatrices c = Inr (A, B) \<and> is_shape 21 21 A \<and> is_shape 21 21 B
     \<and> (\<forall>i<21. \<forall>j<21. A ! i ! j = profit1 c i j)
     \<and> (\<forall>i<21. \<forall>j<21. B ! i ! j = profit2 c j i)"
  using PayoffMatrices_outer_ok [OF is_shape_zeros is_shape_zeros, of "[0..<21]" 21 c]
  by (simp add: PayoffMatrices_def Let_def)

text \<open>
  Claim C1. For every cost \<open>c\<close> in \<open>[0, 30]\<close> and every pair \<open>(q1, q2)\<close> of the grid
  \<open>[0, 20] x [0, 20]\<close>, the call \<open>PayoffMatrices c\<close> returns two tables \<open>A\<close> and
  \<open>B\<close> whose entries read \<open>A[q1, q2] = (30 - q1 - q2) * q1 - c * q1\<close> and
  \<open>B[q2, q1] = (30 - q1 - q2) * q2 - c * q2\<close>, exactly.
\<close>

theorem PayoffMatrices_entries:
  assumes "0 \<le> c" "c \<le> 30" "q1 \<le> 20" "q2 \<le> 20"
  shows "\<exists>A B. PayoffMatrices c = Inr (A, B)
           \<and> get2 A q1 q2 = Inr ((30 - int q1 - int q2) * int q1 - c * int q1)
           \<and> get2 B q2 q1 = Inr ((30 - int q1 - int q2) * int q2 - c * int q2)"
proof -
  obtain A B where ok: "PayoffMatrices c = Inr (A, B)"
    and shp: "is_shape 21 21 A" "is_shape 21 21 B"
    and eA: "\<forall>i<21. \<forall>j<21. A ! i ! j = profit1 c i j"
    and eB: "\<forall>i<21. \<forall>j<21. B ! i ! j = profit2 c j i"
    using PayoffMatrices_ok [of c] by blast
  have lt: "q1 < 21" "q2 < 21" using assms by simp_all
  have "get2 A q1 q2 = Inr (profit1 c q1 q2)"
    using get2_ok [OF shp(1) lt] eA lt by simp
  moreover have "get2 B q2 q1 = Inr (profit2 c q1 q2)"
    using get2_ok [OF shp(2) lt(2) lt(1)] eB lt by simp
  ultimately show ?thesis
    using ok by (simp add: profit1_def profit2_def)
qed

theorem PayoffMatrices_entries_witness:
  "(0::int) \<le> 5 \<and> (5::int) \<le> 30 \<and> (3::nat) \<le> 20 \<and> (4::nat) \<le> 20
     \<and> (\<exists>A B. PayoffMatrices 5 = Inr (A, B) \<and> get2 A 3 4 = Inr 54 \<and> get2 B 4 3 = Inr 72)"
  using PayoffMatrices_entries [of 5 3 4] by simp

text \<open>
  Claim C10. The two tables returned by \<open>PayoffMatrices c\<close> agree entry by entry,
  \<open>A[i, j] = B[i, j]\<close> on the whole grid: the second table is written at the
  transposed position with the mirrored formula.
\<close>

theorem PayoffMatrices_tables_equal:
  "\<exists>A B. PayoffMatrices c = Inr (A, B)
     \<and> (\<forall>i\<le>20. \<forall>j\<le>20. get2 A i j = get2 B i j \<and> A ! i ! j = B ! i ! j)"
proof -
  obtain A B where ok: "PayoffMatrices c = Inr (A, B)"
    and shp: "is_shape 21 21 A" "is_shape 21 21 B"
    and eA: "\<forall>i<21. \<forall>j<21. A ! i ! j = profit1 c i j"
    and eB: "\<forall>i<21. \<forall>j<21. B ! i ! j = profit2 c j i"
    using PayoffMatrices_ok [of c] by blast
  have "get2 A i j = get2 B i j \<and> A ! i ! j = B ! i ! j" if "i \<le> 20" "j \<le> 20" for i j
  proof -
    have lt: "i < 21" "j < 21" using that by simp_all
    have "A ! i ! j = profit1 c i j" and "B ! i ! j = profit2 c j i"
      using eA eB lt by simp_all
    moreover have "profit1 c i j = profit2 c j i"
      by (simp add: profit1_def profit2_def algebra_simps)
    ultimately have "A ! i ! j = B ! i ! j" by simp
    then show ?thesis
      using get2_ok [OF shp(1) lt] get2_ok [OF shp(2) lt] by simp
  qed
  then show ?thesis using ok by blast
qed

theorem PayoffMatrices_tables_equal_witness:
  "\<exists>A B. PayoffMatrices 7 = Inr (A, B) \<and> get2 A 2 19 = get2 B 2 19 \<and> A ! 2 ! 19 = B ! 2 ! 19"
proof -
  obtain A B where ok: "PayoffMatrices 7 = Inr (A, B)"
    and eq: "\<forall>i\<le>20. \<forall>j\<le>20. get2 A i j = get2 B i j \<and> A ! i ! j = B ! i ! j"
    using PayoffMatrices_tables_equal [of 7] by blast
  have "get2 A 2 19 = get2 B 2 19 \<and> A ! 2 ! 19 = B ! 2 ! 19"
    using eq by simp
  then show ?thesis using ok by blast
qed

section \<open>The equilibrium search\<close>

text \<open>
  On square tables of one size no access fails, and each best-response test of the
  loop body is the comparison of an entry with the maximum of its column.
\<close>

lemma amax_Max:
  assumes "xs \<noteq> []"
  shows "amax xs = Inr (Max (set xs))"
proof (cases xs)
  case Nil
  then show ?thesis using assms by simp
next
  case (Cons a list)
  then show ?thesis using Max.set_eq_fold [of a list] by simp
qed

lemma col_ok:
  assumes "is_shape n m A" "j < m"
  shows "col A j = Inr (map (\<lambda>r. r ! j) A)"
  using assms by (auto simp: col_def is_shape_def list_all_iff)

lemma set_column: "set (map (\<lambda>r. r ! j) A) = (\<lambda>i. A ! i ! j) ` {0..<length A}"
proof -
  have "set A = (\<lambda>i. A ! i) ` {0..<length A}"
    using nth_image [of "length A" A] by simp
  then have "(\<lambda>r. r ! j) ` set A = (\<lambda>r. r ! j) ` ((\<lambda>i. A ! i) ` {0..<length A})"
    by simp
  then show ?thesis by (simp add: image_image)
qed

lemma col_amax:
  assumes "is_shape n m A" "j < m" "0 < n"
  shows "col A j = Inr (map (\<lambda>r. r ! j) A)" and "amax (map (\<lambda>r. r ! j) A) = Inr (col_max A j)"
proof -
  show "col A j = Inr (map (\<lambda>r. r ! j) A)" by (rule col_ok [OF assms(1,2)])
  have "A \<noteq> []" using assms by (auto simp: is_shape_def)
  then show "amax (map (\<lambda>r. r ! j) A) = Inr (col_max A j)"
    by (simp add: amax_Max col_max_def set_column del: set_map)
qed

lemma ge_col_max:
  assumes "i < length A"
  shows "col_max A j \<le> A ! i ! j \<longleftrightarrow> A ! i ! j = col_max A j"
proof -
  have "A ! i ! j \<le> col_max A j"
    unfolding col_max_def using assms by (intro Max_ge) auto
  then show ?thesis by auto
qed

lemma NashEquilibrium_step_ok:
  assumes "is_shape n n A" "is_shape n n B" "q1 < n" "q2 < n"
  shows "NashEquilibrium_step A B q1 q2 acc =
           Inr (if is_nash A B q1 q2 then acc @ [(q1, q2)] else acc)"
proof -
  have n: "0 < n" using assms by simp
  have len: "length A = n" "length B = n" using assms by (simp_all add: is_shape_def)
  show ?thesis
    unfolding NashEquilibrium_step_def
    using get2_ok [OF assms(1) assms(3) assms(4)] get2_ok [OF assms(2) assms(4) assms(3)]
      col_amax [OF assms(1) assms(4) n] col_amax [OF assms(2) assms(3) n]
      ge_col_max [of q1 A q2] ge_col_max [of q2 B q1] assms(3,4) len
    by (simp add: is_nash_def Let_def)
qed

lemma NashEquilibrium_inner_ok:
  assumes "is_shape n n A" "is_shape n n B" "q1 < n" "\<forall>q2\<in>set q2s. q2 < n"
  shows "NashEquilibrium_inner A B q1 q2s acc =
           Inr (acc @ map (Pair q1) (filter (is_nash A B q1) q2s))"
  using assms(4)
proof (induction q2s arbitrary: acc)
  case Nil
  then show ?case by simp
next
  case (Cons q2 rest)
  then show ?case
    using NashEquilibrium_step_ok [OF assms(1,2,3), of q2 acc] by simp
qed

lemma NashEquilibrium_outer_ok:
  assumes "is_shape n n A" "is_shape n n B" "\<forall>q1\<in>set q1s. q1 < n"
  shows "NashEquilibrium_outer A B n q1s acc =
           Inr (acc @ concat (map (\<lambda>q1. map (Pair q1) (filter (is_nash A B q1) [0..<n])) q1s))"
  using assms(3)
proof (induction q1s arbitrary: acc)
  case Nil
  then show ?case by simp
next
  case (Cons q1 rest)
  then show ?case
    using NashEquilibrium_inner_ok [OF assms(1,2), of q1 "[0..<n]" acc] by simp
qed

lemma concat_filter_product:
  "concat (map (\<lambda>x. map (Pair x) (filter (P x) ys)) xs) =
     filter (\<lambda>(x, y). P x y) (List.product xs ys)"
  by (induction xs) (simp_all add: filter_map comp_def)

lemma equilibria_of_ok:
  assumes "is_shape n n A" "is_shape n n B"
  shows "equilibria_of A B = Inr (nash_pairs A B)"
proof -
  have len: "length A = n" using assms by (simp add: is_shape_def)
  show ?thesis
    using NashEquilibrium_outer_ok [OF assms, of "[0..<n]" "[]"]
    by (simp add: equilibria_of_def shape0_def Let_def len nash_pairs_def concat_filter_product)
qed

lemma sorted_product:
  assumes "sorted_wrt (<) xs" "sorted_wrt (<) ys"
  shows "sorted_wrt lex_less (List.product xs ys)"
  using assms
  by (induction xs) (auto simp: sorted_wrt_append sorted_wrt_map lex_less_def)

lemma nash_pairs_sorted: "sorted_wrt lex_less (nash_pairs A B)"
  unfolding nash_pairs_def
  by (intro sorted_wrt_filter sorted_product) simp_all

lemma set_nash_pairs:
  "set (nash_pairs A B) = {(q1, q2). q1 < length A \<and> q2 < length A \<and> is_nash A B q1 q2}"
  by (auto simp: nash_pairs_def)

section \<open>The search on the payoff tables\<close>

lemma shape_ext:
  assumes "is_shape n m A" "is_shape n m B" "\<forall>i<n. \<forall>j<m. A ! i ! j = B ! i ! j"
  shows "A = B"
proof (rule nth_equalityI)
  show "length A = length B" using assms by (simp add: is_shape_def)
next
  fix i assume i: "i < length A"
  then have lt: "i < n" using assms(1) by (simp add: is_shape_def)
  show "A ! i = B ! i"
  proof (rule nth_equalityI)
    show "length (A ! i) = length (B ! i)"
      using is_shape_nth [OF assms(1) lt] is_shape_nth [OF assms(2) lt] by simp
  next
    fix j assume "j < length (A ! i)"
    then have "j < m" using is_shape_nth [OF assms(1) lt] by simp
    then show "A ! i ! j = B ! i ! j" using assms(3) lt by simp
  qed
qed

lemma is_shape_payoff_table: "is_shape 21 21 (payoff_table c)"
  by (simp add: is_shape_def payoff_table_def list_all_iff)

lemma payoff_table_nth:
  assumes "i < 21" "j < 21"
  shows "payoff_table c ! i ! j = profit1 c i j"
  unfolding payoff_table_def using assms by (simp del: upt_rec_numeral upt.simps)

lemma PayoffMatrices_table: "PayoffMatrices c = Inr (payoff_table c, payoff_table c)"
proof -
  obtain A B where ok: "PayoffMatrices c = Inr (A, B)"
    and shp: "is_shape 21 21 A" "is_shape 21 21 B"
    and eA: "\<forall>i<21. \<forall>j<21. A ! i ! j = profit1 c i j"
    and eB: "\<forall>i<21. \<forall>j<21. B ! i ! j = profit2 c j i"
    using PayoffMatrices_ok [of c] by blast
  have sw: "profit2 c j i = profit1 c i j" for i j
    by (simp add: profit1_def profit2_def algebra_simps)
  have "A = payoff_table c"
    using eA by (intro shape_ext [OF shp(1) is_shape_payoff_table]) (simp add: payoff_table_nth)
  moreover have "B = payoff_table c"
    using eB by (intro shape_ext [OF shp(2) is_shape_payoff_table]) (simp add: payoff_table_nth sw)
  ultimately show ?thesis using ok by simp
qed

lemma sweep_equilibria_nash_pairs:
  "sweep_equilibria c = Inr (nash_pairs (payoff_table c) (payoff_table c))"
  using equilibria_of_ok [OF is_shape_payoff_table is_shape_payoff_table, of c c]
  by (simp add: sweep_equilibria_def PayoffMatrices_table)

text \<open>
  On the payoff table the column-maximum test has a closed form. The profit of a
  quantity is a concave quadratic in it, so a quantity is a maximiser on the grid
  exactly when neither neighbour does better.
\<close>

lemma profit1_diff:
  "profit1 c i q' - profit1 c q q' = (int i - int q) * (30 - c - int q' - int i - int q)"
  by (simp add: profit1_def algebra_simps)

lemma best_reply_iff:
  assumes "q < 21"
  shows "(\<forall>i<21. profit1 c i q' \<le> profit1 c q q') \<longleftrightarrow> best_reply c q q'"
proof
  assume H: "\<forall>i<21. profit1 c i q' \<le> profit1 c q q'"
  have up: "30 - c - int q' - 1 \<le> 2 * int q" if "q \<noteq> 20"
  proof -
    have "Suc q < 21" using assms that by simp
    then have "profit1 c (Suc q) q' \<le> profit1 c q q'" using H by blast
    then show ?thesis by (simp add: profit1_def algebra_simps)
  qed
  have down: "2 * int q \<le> 30 - c - int q' + 1" if nz: "q \<noteq> 0"
  proof -
    obtain p where p: "q = Suc p" using nz by (cases q) auto
    then have "p < 21" using assms by simp
    then have "profit1 c p q' \<le> profit1 c q q'" using H by blast
    then show ?thesis unfolding p by (simp add: profit1_def algebra_simps)
  qed
  show "best_reply c q q'" unfolding best_reply_def using up down by blast
next
  assume B: "best_reply c q q'"
  show "\<forall>i<21. profit1 c i q' \<le> profit1 c q q'"
  proof (intro allI impI)
    fix i :: nat assume i: "i < 21"
    have "(int i - int q) * (30 - c - int q' - int i - int q) \<le> 0"
    proof (cases "q \<le> i")
      case True
      show ?thesis
      proof (cases "i = q")
        case True
        then show ?thesis by simp
      next
        case False
        then have lt: "q < i" using True by simp
        then have "q \<noteq> 20" using i by simp
        then have "30 - c - int q' - 1 \<le> 2 * int q" using B by (simp add: best_reply_def)
        then have "30 - c - int q' - int i - int q \<le> 0" using lt by linarith
        moreover have "0 \<le> int i - int q" using lt by simp
        ultimately show ?thesis by (rule mult_nonneg_nonpos [rotated])
      qed
    next
      case False
      then have lt: "i < q" by simp
      then have "q \<noteq> 0" by simp
      then have "2 * int q \<le> 30 - c - int q' + 1" using B by (simp add: best_reply_def)
      then have "0 \<le> 30 - c - int q' - int i - int q" using lt by linarith
      moreover have "int i - int q \<le> 0" using lt by simp
      ultimately show ?thesis by (rule mult_nonpos_nonneg [rotated])
    qed
    then show "profit1 c i q' \<le> profit1 c q q'" using profit1_diff [of c i q' q] by linarith
  qed
qed

lemma col_max_le_iff:
  assumes "0 < length A"
  shows "col_max A j \<le> x \<longleftrightarrow> (\<forall>i<length A. A ! i ! j \<le> x)"
  unfolding col_max_def using assms by (subst Max_le_iff) auto

lemma payoff_table_best:
  assumes "q < 21" "q' < 21"
  shows "payoff_table c ! q ! q' = col_max (payoff_table c) q' \<longleftrightarrow> best_reply c q q'"
proof -
  have len: "length (payoff_table c) = 21" by (simp add: payoff_table_def)
  have "payoff_table c ! q ! q' = col_max (payoff_table c) q'
          \<longleftrightarrow> col_max (payoff_table c) q' \<le> payoff_table c ! q ! q'"
    using ge_col_max [of q "payoff_table c" q'] assms len by simp
  also have "\<dots> \<longleftrightarrow> (\<forall>i<21. payoff_table c ! i ! q' \<le> payoff_table c ! q ! q')"
    using col_max_le_iff [of "payoff_table c" q'] len by simp
  also have "\<dots> \<longleftrightarrow> (\<forall>i<21. profit1 c i q' \<le> profit1 c q q')"
    using assms by (simp add: payoff_table_nth)
  also have "\<dots> \<longleftrightarrow> best_reply c q q'"
    by (rule best_reply_iff [OF assms(1)])
  finally show ?thesis .
qed

lemma nash_pairs_closed: "nash_pairs (payoff_table c) (payoff_table c) = closed_pairs c"
proof -
  have len: "length (payoff_table c) = 21" by (simp add: payoff_table_def)
  show ?thesis
    unfolding nash_pairs_def closed_pairs_def len
    by (rule filter_cong) (auto simp: is_nash_def payoff_table_best)
qed

lemma sweep_equilibria_closed: "sweep_equilibria c = Inr (closed_pairs c)"
  by (simp add: sweep_equilibria_nash_pairs nash_pairs_closed)


text \<open>
  For a fixed \<open>q1\<close> at most two quantities of firm 2 pass the test, so that the scan
  of a row can be cut down to them; this keeps the evaluation for a given cost small.
\<close>

lemma filter_upt_narrow:
  assumes "sorted_wrt (<) ys" "\<forall>y\<in>set ys. y < n" "\<forall>x<n. P x \<longrightarrow> x \<in> set ys"
  shows "filter P [0..<n] = filter P ys"
proof (rule strict_sorted_equal)
  show "sorted_wrt (<) (filter P ys)" using assms(1) by (rule sorted_wrt_filter)
  show "sorted_wrt (<) (filter P [0..<n])" by (rule sorted_wrt_filter) simp
  show "set (filter P [0..<n]) = set (filter P ys)" using assms(2,3) by auto
qed

lemma candidates_sorted: "sorted_wrt (<) (candidates c q1)"
  by (auto simp: candidates_def Let_def)

lemma candidates_bound:
  assumes "0 \<le> c"
  shows "\<forall>y\<in>set (candidates c q1). y < 21"
  using assms by (auto simp: candidates_def Let_def)

lemma best_reply_candidate:
  assumes "0 \<le> c" "best_reply c q2 q1"
  shows "q2 \<in> set (candidates c q1)"
proof -
  define m where "m = 30 - c - int q1"
  have m: "m \<le> 30" using assms(1) by (simp add: m_def)
  have lo: "m - 1 \<le> 2 * int q2" and hi: "q2 = 0 \<or> 2 * int q2 \<le> m + 1"
    using assms(2) m by (auto simp: best_reply_def m_def)
  have "q2 = nat (m div 2) \<or> q2 = nat ((m + 1) div 2)"
    using lo hi by (cases "q2 = 0") (simp; linarith)+
  then show ?thesis
    by (auto simp: candidates_def Let_def m_def)
qed

lemma closed_pairs_fast:
  assumes "0 \<le> c"
  shows "closed_pairs c = fast_pairs c"
proof -
  have "filter (\<lambda>q2. best_reply c q1 q2 \<and> best_reply c q2 q1) [0..<21] =
        filter (\<lambda>q2. best_reply c q1 q2 \<and> best_reply c q2 q1) (candidates c q1)" for q1
    using candidates_sorted candidates_bound [OF assms] best_reply_candidate [OF assms]
    by (intro filter_upt_narrow) auto
  then show ?thesis
    unfolding closed_pairs_def fast_pairs_def concat_filter_product [symmetric] by simp
qed

lemma fast_counts:
  "\<forall>c\<in>set [0..30]. length (fast_pairs c) = (if c = 30 then 1 else 3)"
  by code_simp

lemma lines_differ: "equilibrium_line c eq \<noteq> absence_line c"
  by (simp add: equilibrium_line_def absence_line_def)

lemma closed_count:
  assumes "0 \<le> c" "c \<le> 30"
  shows "length (closed_pairs c) = (if c = 30 then 1 else 3)"
proof -
  have "c \<in> set [0..30]" using assms by simp
  then show ?thesis using fast_counts closed_pairs_fast [OF assms(1)] by simp
qed

text \<open>
  Claim C2. For two square tables \<open>A\<close> and \<open>B\<close> of the same size \<open>n\<close> (the tables of
  the program are the case \<open>n = 21\<close>) and every \<open>c\<close>, the pairs that
  \<open>NashEquilibrium A B c\<close> collects are exactly the pairs \<open>(q1, q2)\<close> of the grid
  with \<open>A[q1, q2]\<close> the maximum of column \<open>q2\<close> of \<open>A\<close> and \<open>B[q2, q1]\<close> the
  maximum of column \<open>q1\<close> of \<open>B\<close>, ties included; they are listed in strictly
  increasing lexicographic order, \<open>q1\<close> outer and \<open>q2\<close> inner; and the lines
  printed are those of the collected pairs, in that order.
\<close>

theorem NashEquilibrium_collects:
  assumes "is_shape n n A" "is_shape n n B"
  shows "\<exists>eqs. equilibria_of A B = Inr eqs
           \<and> set eqs = {(q1, q2). q1 < n \<and> q2 < n
                         \<and> A ! q1 ! q2 = col_max A q2 \<and> B ! q2 ! q1 = col_max B q1}
           \<and> sorted_wrt lex_less eqs
           \<and> eqs = filter (\<lambda>(q1, q2). is_nash A B q1 q2) (List.product [0..<n] [0..<n])
           \<and> NashEquilibrium A B c =
               Inr (if eqs = [] then [absence_line c] else map (equilibrium_line c) eqs)"
proof -
  have len: "length A = n" using assms by (simp add: is_shape_def)
  have run: "equilibria_of A B = Inr (nash_pairs A B)" by (rule equilibria_of_ok [OF assms])
  have "set (nash_pairs A B) = {(q1, q2). q1 < n \<and> q2 < n
          \<and> A ! q1 ! q2 = col_max A q2 \<and> B ! q2 ! q1 = col_max B q1}"
    by (simp add: set_nash_pairs len is_nash_def)
  moreover have "nash_pairs A B =
      filter (\<lambda>(q1, q2). is_nash A B q1 q2) (List.product [0..<n] [0..<n])"
    by (simp add: nash_pairs_def len)
  moreover have "NashEquilibrium A B c =
      Inr (if nash_pairs A B = [] then [absence_line c]
           else map (equilibrium_line c) (nash_pairs A B))"
    by (simp add: NashEquilibrium_def run)
  ultimately show ?thesis using run nash_pairs_sorted [of A B] by blast
qed

theorem NashEquilibrium_collects_witness:
  "is_shape 2 2 [[3, 1], [2, 4 :: int]] \<and> is_shape 2 2 [[1, 5], [0, 2 :: int]]
     \<and> equilibria_of [[3, 1], [2, 4 :: int]] [[1, 5], [0, 2 :: int]] = Inr [(0, 0)]
     \<and> NashEquilibrium [[3, 1], [2, 4 :: int]] [[1, 5], [0, 2 :: int]] 7 =
         Inr [''For marginal cost c = 7, the strategy profile (q1=0, q2=0) is a Nash equilibrium.'']"
proof -
  let ?A = "[[3, 1], [2, 4 :: int]]" and ?B = "[[1, 5], [0, 2 :: int]]"
  have sA: "is_shape 2 2 ?A" and sB: "is_shape 2 2 ?B" by (simp_all add: is_shape_def)
  obtain eqs where run: "equilibria_of ?A ?B = Inr eqs"
    and flt: "eqs = filter (\<lambda>(q1, q2). is_nash ?A ?B q1 q2) (List.product [0..<2] [0..<2])"
    and out: "NashEquilibrium ?A ?B 7 =
               Inr (if eqs = [] then [absence_line 7] else map (equilibrium_line 7) eqs)"
    using NashEquilibrium_collects [OF sA sB, of 7] by blast
  have "filter (\<lambda>(q1, q2). is_nash ?A ?B q1 q2) (List.product [0..<2] [0..<2]) = [(0, 0)]"
    by code_simp
  moreover have "equilibrium_line 7 (0, 0) =
      ''For marginal cost c = 7, the strategy profile (q1=0, q2=0) is a Nash equilibrium.''"
    by code_simp
  ultimately show ?thesis
    using run out sA sB flt by simp
qed

section \<open>The sweep over the costs\<close>

text \<open>What is printed for square tables, and the output of the whole driver.\<close>

lemma NashEquilibrium_printed:
  assumes "is_shape n n A" "is_shape n n B"
  shows "NashEquilibrium A B c =
           Inr (if nash_pairs A B = [] then [absence_line c]
                else map (equilibrium_line c) (nash_pairs A B))"
  by (simp add: NashEquilibrium_def equilibria_of_ok [OF assms])

lemma main_loop_ok:
  "main_loop cs out =
     (out @ concat (map (\<lambda>c. report_block c (closed_pairs (int c))) cs), None)"
proof (induction cs arbitrary: out)
  case Nil
  then show ?case by simp
next
  case (Cons c rest)
  have "NashEquilibrium (payoff_table (int c)) (payoff_table (int c)) (int c) =
          Inr (if closed_pairs (int c) = [] then [absence_line (int c)]
               else map (equilibrium_line (int c)) (closed_pairs (int c)))"
    using NashEquilibrium_printed [OF is_shape_payoff_table is_shape_payoff_table, of "int c" "int c" "int c"]
    by (simp add: nash_pairs_closed)
  then show ?case
    using Cons.IH by (simp add: PayoffMatrices_table report_block_def Let_def)
qed

text \<open>
  Claim C3. For every cost \<open>c\<close> in \<open>[0, 30]\<close>, the pairs found by the search on the
  two tables of \<open>PayoffMatrices c\<close> are symmetric under swapping the firms: with
  \<open>(q1, q2)\<close> the list also holds \<open>(q2, q1)\<close>.
\<close>

theorem equilibria_symmetric:
  assumes "0 \<le> c" "c \<le> 30"
  shows "\<exists>eqs. sweep_equilibria c = Inr eqs
           \<and> (\<forall>q1 q2. (q1, q2) \<in> set eqs \<longrightarrow> (q2, q1) \<in> set eqs)"
proof -
  have "(q2, q1) \<in> set (closed_pairs c)" if "(q1, q2) \<in> set (closed_pairs c)" for q1 q2
    using that by (auto simp: closed_pairs_def)
  then show ?thesis by (simp add: sweep_equilibria_closed)
qed

theorem equilibria_symmetric_witness:
  "(0::int) \<le> 4 \<and> (4::int) \<le> 30
     \<and> (\<exists>eqs. sweep_equilibria 4 = Inr eqs \<and> eqs = [(8, 9), (9, 8), (9, 9)]
           \<and> (8, 9) \<in> set eqs \<and> (9, 8) \<in> set eqs)"
proof -
  obtain eqs where run: "sweep_equilibria 4 = Inr eqs"
    and sym: "\<forall>q1 q2. (q1, q2) \<in> set eqs \<longrightarrow> (q2, q1) \<in> set eqs"
    using equilibria_symmetric [of 4] by auto
  have "fast_pairs 4 = [(8, 9), (9, 8), (9, 9)]" by code_simp
  then have "sweep_equilibria 4 = Inr [(8, 9), (9, 8), (9, 9)]"
    by (simp add: sweep_equilibria_closed closed_pairs_fast)
  then have eqs: "eqs = [(8, 9), (9, 8), (9, 9)]" using run by simp
  then have "(8, 9) \<in> set eqs" by simp
  then have "(9, 8) \<in> set eqs" using sym by blast
  then show ?thesis using run eqs by simp
qed

text \<open>
  Claim C4. For integer costs \<open>0 \<le> c1 \<le> c2 \<le> 30\<close>, the search finds at most as many
  pairs for \<open>c2\<close> as for \<open>c1\<close>: the number of equilibria never grows along the
  sweep. (It is 3 for every cost below 30 and 1 at 30.)
\<close>

theorem equilibrium_count_monotone:
  assumes "0 \<le> c1" "c1 \<le> c2" "c2 \<le> 30"
  shows "\<exists>eqs1 eqs2. sweep_equilibria c1 = Inr eqs1 \<and> sweep_equilibria c2 = Inr eqs2
           \<and> length eqs2 \<le> length eqs1"
proof -
  have "length (closed_pairs c2) \<le> length (closed_pairs c1)"
    using closed_count [of c1] closed_count [of c2] assms by auto
  then show ?thesis by (simp add: sweep_equilibria_closed)
qed

theorem equilibrium_count_monotone_witness:
  "(0::int) \<le> 12 \<and> (12::int) \<le> 30 \<and> (30::int) \<le> 30
     \<and> (\<exists>eqs1 eqs2. sweep_equilibria 12 = Inr eqs1 \<and> sweep_equilibria 30 = Inr eqs2
           \<and> length eqs2 \<le> length eqs1)"
  using equilibrium_count_monotone [of 12 30] by simp

text \<open>
  Claim C5. At \<open>c = 30\<close> the search on the tables of \<open>PayoffMatrices 30\<close> finds the
  single pair \<open>(0, 0)\<close> and nothing else, and prints its line.
\<close>

theorem equilibria_cost_30:
  "sweep_equilibria 30 = Inr [(0, 0)]
     \<and> (\<exists>A B. PayoffMatrices 30 = Inr (A, B) \<and> NashEquilibrium A B 30 =
          Inr [''For marginal cost c = 30, the strategy profile (q1=0, q2=0) is a Nash equilibrium.''])"
proof -
  have fp: "fast_pairs 30 = [(0, 0)]" by code_simp
  have cp: "closed_pairs 30 = [(0, 0)]" using closed_pairs_fast [of 30] fp by simp
  have ln: "equilibrium_line 30 (0, 0) =
      ''For marginal cost c = 30, the strategy profile (q1=0, q2=0) is a Nash equilibrium.''"
    by code_simp
  have "NashEquilibrium (payoff_table 30) (payoff_table 30) 30 =
      Inr [''For marginal cost c = 30, the strategy profile (q1=0, q2=0) is a Nash equilibrium.'']"
    using NashEquilibrium_printed [OF is_shape_payoff_table is_shape_payoff_table, of 30 30 30]
    by (simp add: nash_pairs_closed cp ln)
  then show ?thesis
    by (simp add: sweep_equilibria_closed cp PayoffMatrices_table)
qed

text \<open>
  Claim C6. At \<open>c = 0\<close> the search on the tables of \<open>PayoffMatrices 0\<close> finds more
  than one pair, the symmetric Cournot pair \<open>(10, 10)\<close> among them.
\<close>

theorem equilibria_cost_0:
  "\<exists>eqs. sweep_equilibria 0 = Inr eqs \<and> eqs = [(9, 11), (10, 10), (11, 9)]
     \<and> (10, 10) \<in> set eqs \<and> 1 < length eqs"
proof -
  have fp: "fast_pairs 0 = [(9, 11), (10, 10), (11, 9)]" by code_simp
  have cp: "closed_pairs 0 = [(9, 11), (10, 10), (11, 9)]" using closed_pairs_fast [of 0] fp by simp
  show ?thesis by (simp add: sweep_equilibria_closed cp)
qed

text \<open>
  Claim C7. On two square tables of the same size and any \<open>c\<close>, \<open>NashEquilibrium\<close>
  returns without failure, and what it prints has exactly one of two shapes: one line
  per collected pair when there is at least one, none of them the absence line; or
  the absence line alone when there is none, which is no equilibrium line.
\<close>

theorem NashEquilibrium_output_shape:
  assumes "is_shape n n A" "is_shape n n B"
  shows "\<exists>eqs out. equilibria_of A B = Inr eqs \<and> NashEquilibrium A B c = Inr out
           \<and> ((eqs \<noteq> [] \<and> out = map (equilibrium_line c) eqs \<and> absence_line c \<notin> set out)
              \<or> (eqs = [] \<and> out = [absence_line c] \<and> (\<forall>eq. equilibrium_line c eq \<notin> set out)))"
proof -
  let ?eqs = "nash_pairs A B"
  let ?out = "if ?eqs = [] then [absence_line c] else map (equilibrium_line c) ?eqs"
  have run: "equilibria_of A B = Inr ?eqs" by (rule equilibria_of_ok [OF assms])
  have out: "NashEquilibrium A B c = Inr ?out" by (rule NashEquilibrium_printed [OF assms])
  have no_absence: "absence_line c \<notin> set (map (equilibrium_line c) ?eqs)"
  proof
    assume "absence_line c \<in> set (map (equilibrium_line c) ?eqs)"
    then obtain eq where "equilibrium_line c eq = absence_line c" by auto
    then show False using lines_differ by blast
  qed
  have no_pair: "\<forall>eq. equilibrium_line c eq \<notin> set [absence_line c]"
    by (simp add: lines_differ)
  have "(?eqs \<noteq> [] \<and> ?out = map (equilibrium_line c) ?eqs \<and> absence_line c \<notin> set ?out)
          \<or> (?eqs = [] \<and> ?out = [absence_line c] \<and> (\<forall>eq. equilibrium_line c eq \<notin> set ?out))"
  proof (cases "?eqs = []")
    case True
    then show ?thesis using no_pair by simp
  next
    case False
    then show ?thesis using no_absence by simp
  qed
  then show ?thesis using run out by blast
qed

theorem NashEquilibrium_output_shape_witness:
  "is_shape 2 2 [[1, - 1], [- 1, 1 :: int]] \<and> is_shape 2 2 [[- 1, 1], [1, - 1 :: int]]
     \<and> equilibria_of [[1, - 1], [- 1, 1 :: int]] [[- 1, 1], [1, - 1 :: int]] = Inr []
     \<and> NashEquilibrium [[1, - 1], [- 1, 1 :: int]] [[- 1, 1], [1, - 1 :: int]] 3 =
         Inr [''For marginal cost c = 3, no pure strategy Nash equilibrium exists.'']"
proof -
  let ?A = "[[1, - 1], [- 1, 1 :: int]]" and ?B = "[[- 1, 1], [1, - 1 :: int]]"
  have sA: "is_shape 2 2 ?A" and sB: "is_shape 2 2 ?B" by (simp_all add: is_shape_def)
  obtain eqs out where run: "equilibria_of ?A ?B = Inr eqs"
    and out: "NashEquilibrium ?A ?B 3 = Inr out"
    and shape: "(eqs \<noteq> [] \<and> out = map (equilibrium_line 3) eqs \<and> absence_line 3 \<notin> set out)
              \<or> (eqs = [] \<and> out = [absence_line 3] \<and> (\<forall>eq. equilibrium_line 3 eq \<notin> set out))"
    using NashEquilibrium_output_shape [OF sA sB, of 3] by blast
  have "equilibria_of ?A ?B = Inr []" by code_simp
  then have "eqs = []" using run by simp
  moreover have "absence_line 3 = ''For marginal cost c = 3, no pure strategy Nash equilibrium exists.''"
    by code_simp
  ultimately show ?thesis using run out shape sA sB by simp
qed

text \<open>
  Claim C8. The entry point runs the 31 costs \<open>0, ..., 30\<close> in order and prints for
  each the block of \<open>report_block\<close>: the header \<open>Marginal cost c = <c>\<close>, 30 dashes,
  the equilibrium lines of that cost or the single absence line, an empty line, 30
  equals signs, and an empty line; nothing else is printed and nothing fails.
\<close>

theorem main_report:
  "\<exists>eqs. (\<forall>c<31. sweep_equilibria (int c) = Inr (eqs c))
     \<and> main = (concat (map (\<lambda>c. report_block c (eqs c)) [0..<31]), None)
     \<and> length (map (\<lambda>c. report_block c (eqs c)) [0..<31]) = 31"
proof -
  have "\<forall>c<31. sweep_equilibria (int c) = Inr (closed_pairs (int c))"
    by (simp add: sweep_equilibria_closed)
  moreover have "main = (concat (map (\<lambda>c. report_block c (closed_pairs (int c))) [0..<31]), None)"
    by (simp add: main_def main_loop_ok)
  ultimately show ?thesis
    by (intro exI [of _ "\<lambda>c. closed_pairs (int c)"]) simp
qed

theorem main_report_witness:
  "sweep_equilibria (int 0) = Inr [(9, 11), (10, 10), (11, 9)]
     \<and> take 8 (fst main) =
         [''Marginal cost c = 0'',
          ''------------------------------'',
          ''For marginal cost c = 0, the strategy profile (q1=9, q2=11) is a Nash equilibrium.'',
          ''For marginal cost c = 0, the strategy profile (q1=10, q2=10) is a Nash equilibrium.'',
          ''For marginal cost c = 0, the strategy profile (q1=11, q2=9) is a Nash equilibrium.'',
          '''',
          ''=============================='',
          '''']
     \<and> snd main = None"
proof -
  obtain eqs where sw: "\<forall>c<31. sweep_equilibria (int c) = Inr (eqs c)"
    and m: "main = (concat (map (\<lambda>c. report_block c (eqs c)) [0..<31]), None)"
    using main_report by blast
  have fp: "fast_pairs 0 = [(9, 11), (10, 10), (11, 9)]" by code_simp
  have "sweep_equilibria (int 0) = Inr [(9, 11), (10, 10), (11, 9)]"
    using closed_pairs_fast [of 0] fp by (simp add: sweep_equilibria_closed)
  moreover have "sweep_equilibria (int 0) = Inr (eqs 0)" using sw [rule_format, of 0] by simp
  ultimately have e0: "eqs 0 = [(9, 11), (10, 10), (11, 9)]" by simp
  have blk: "report_block 0 [(9, 11), (10, 10), (11, 9)] =
         [''Marginal cost c = 0'',
          ''------------------------------'',
          ''For marginal cost c = 0, the strategy profile (q1=9, q2=11) is a Nash equilibrium.'',
          ''For marginal cost c = 0, the strategy profile (q1=10, q2=10) is a Nash equilibrium.'',
          ''For marginal cost c = 0, the strategy profile (q1=11, q2=9) is a Nash equilibrium.'',
          '''',
          ''=============================='',
          '''']"
    by code_simp
  have split: "[0..<31] = 0 # [1..<31]" by (simp add: upt_conv_Cons)
  have "fst main = concat (map (\<lambda>c. report_block c (eqs c)) [0..<31])"
    by (simp add: m)
  then have "fst main = report_block 0 (eqs 0) @ concat (map (\<lambda>c. report_block c (eqs c)) [1..<31])"
    unfolding split by simp
  then have "take 8 (fst main) = report_block 0 (eqs 0)"
    by (simp add: e0 blk)
  moreover have "snd main = None" by (simp add: m)
  ultimately show ?thesis
    using \<open>sweep_equilibria (int 0) = Inr [(9, 11), (10, 10), (11, 9)]\<close> e0 blk by simp
qed

text \<open>
  Claim C9. For every cost \<open>c\<close> in \<open>[0, 30]\<close>, no array access of
  \<open>PayoffMatrices\<close> or of \<open>NashEquilibrium\<close> leaves the tables: both calls return a
  result and never the failure value, every index pair of the grid reads inside the
  21 x 21 tables, and the whole sweep of the driver ends without a failure.
\<close>

theorem sweep_no_failure:
  assumes "0 \<le> c" "c \<le> 30"
  shows "\<exists>A B eqs out. PayoffMatrices c = Inr (A, B)
           \<and> is_shape 21 21 A \<and> is_shape 21 21 B
           \<and> (\<forall>q1\<le>20. \<forall>q2\<le>20. get2 A q1 q2 = Inr (A ! q1 ! q2) \<and> get2 B q2 q1 = Inr (B ! q2 ! q1))
           \<and> equilibria_of A B = Inr eqs
           \<and> NashEquilibrium A B c = Inr out
           \<and> snd main = None"
proof -
  let ?T = "payoff_table c"
  have shp: "is_shape 21 21 ?T" by (rule is_shape_payoff_table)
  have "\<forall>q1\<le>20. \<forall>q2\<le>20. get2 ?T q1 q2 = Inr (?T ! q1 ! q2) \<and> get2 ?T q2 q1 = Inr (?T ! q2 ! q1)"
    using get2_ok [OF shp] by simp
  moreover have "equilibria_of ?T ?T = Inr (nash_pairs ?T ?T)"
    by (rule equilibria_of_ok [OF shp shp])
  moreover have "\<exists>out. NashEquilibrium ?T ?T c = Inr out"
    using NashEquilibrium_printed [OF shp shp, of c] by simp
  moreover have "snd main = None"
    by (simp add: main_def main_loop_ok)
  ultimately show ?thesis
    using PayoffMatrices_table [of c] shp by blast
qed

theorem sweep_no_failure_witness:
  "(0::int) \<le> 17 \<and> (17::int) \<le> 30
     \<and> (\<exists>A B eqs out. PayoffMatrices 17 = Inr (A, B) \<and> equilibria_of A B = Inr eqs
           \<and> NashEquilibrium A B 17 = Inr out) \<and> snd main = None"
proof -
  obtain A B eqs out where "PayoffMatrices 17 = Inr (A, B)" "equilibria_of A B = Inr eqs"
    "NashEquilibrium A B 17 = Inr out" "snd main = None"
    using sweep_no_failure [of 17] by auto
  then show ?thesis by auto
qed

end
